theory Spec2Isabelle
  imports Main
begin

section \<open>Errors\<close>

text \<open>
  Every \<^verbatim>\<open>throw new Error(...)\<close> of the modelled sources is a constructor here.
  \<open>TypeError\<close> stands for JavaScript's own error on reading a property of
  \<^verbatim>\<open>undefined\<close> (an array read past its end followed by a method call).
\<close>

datatype error =
    SplitterContention
  | BusWidthError
  | BitConflict
  | TypeError
  | WidthMismatch
  | MemoryInitError
  | ExtendWidthError
  | UnexpectedInput
  | StepLimitExceeded
  | SplitterArgError

section \<open>BitString\<close>

text \<open>
  Modelled from the spec: the class \<^verbatim>\<open>BitString\<close> (src/BitString.ts is not among the
  sources; only its test file is). Spec 3: an immutable bit vector of width \<open>W \<ge> 0\<close>,
  stored big-endian (index 0 is the most significant bit); the string form uses only
  0 and 1. A value is the list of its bits, most significant first; \<^verbatim>\<open>toString()\<close> and the
  constructor from a binary string are the identity on this representation, and
  \<^verbatim>\<open>equals\<close> is equality.
\<close>

type_synonym BitString = "bool list"

text \<open>Modelled from the spec: \<^verbatim>\<open>getWidth()\<close>, the number of bits (spec 3).\<close>

definition getWidth :: "BitString \<Rightarrow> nat" where
  "getWidth b = length b"

text \<open>
  Modelled from the spec: \<^verbatim>\<open>BitString.low(n)\<close> is n zeros and \<^verbatim>\<open>BitString.high(n)\<close> is n
  ones (spec 4.1).
\<close>

definition low :: "nat \<Rightarrow> BitString" where
  "low n = replicate n False"

definition high :: "nat \<Rightarrow> BitString" where
  "high n = replicate n True"

text \<open>
  Modelled from the spec: \<^verbatim>\<open>substring(start, end)\<close>, the bits from index \<open>start\<close> up to
  but without index \<open>end\<close>, the indices counting from the most significant bit as the
  indices of the binary string do (spec 4.1). An end past the width stops at the width.
  The callers below pass \<open>start \<le> end\<close>.
\<close>

definition substring :: "BitString \<Rightarrow> nat \<Rightarrow> nat \<Rightarrow> BitString" where
  "substring b s e = take (e - s) (drop s b)"

text \<open>
  Modelled from the spec: \<^verbatim>\<open>toUnsigned()\<close>, the unsigned reading of the bits, most
  significant first (spec 3 and 4.1).
\<close>

definition toUnsigned :: "BitString \<Rightarrow> nat" where
  "toUnsigned b = foldl (\<lambda>a x. 2 * a + (if x then 1 else 0)) 0 b"

text \<open>
  Modelled from the spec: \<^verbatim>\<open>BitString.make(value, width)\<close> for a non-negative value: the low \<open>width\<close> bits of the
  value, most significant first (extra bits are dropped from the left, missing ones are
  zero, spec 3).
\<close>

fun make_bs :: "nat \<Rightarrow> nat \<Rightarrow> BitString" where
  "make_bs v 0 = []"
| "make_bs v (Suc w) = make_bs (v div 2) w @ [odd v]"

text \<open>Modelled from the spec: \<^verbatim>\<open>not()\<close> inverts every bit and keeps the width (spec 4.1).\<close>

definition bs_not :: "BitString \<Rightarrow> BitString" where
  "bs_not b = map Not b"

text \<open>
  Modelled from the spec: \<^verbatim>\<open>add\<close> wraps at the width, and a width mismatch fails
  (spec 4.1).
\<close>

definition add :: "BitString \<Rightarrow> BitString \<Rightarrow> error + BitString" where
  "add a b =
     (if length a \<noteq> length b then Inl WidthMismatch
      else Inr (make_bs ((toUnsigned a + toUnsigned b) mod 2 ^ length a) (length a)))"

text \<open>
  Modelled from the spec: \<^verbatim>\<open>twosCompliment()\<close> is \<^verbatim>\<open>not()\<close> then \<^verbatim>\<open>add(1)\<close> at the original
  width (spec 4.1).
\<close>

definition twosCompliment :: "BitString \<Rightarrow> error + BitString" where
  "twosCompliment b = add (bs_not b) (make_bs 1 (length b))"

text \<open>
  Modelled from the spec: \<^verbatim>\<open>truncate(n)\<close> keeps the n least significant bits and \<^verbatim>\<open>pad(n)\<close> left-pads with zeros up
  to n bits (spec 4.1; BitString.test.ts: \<^verbatim>\<open>"00111100".truncate(4)\<close> is \<^verbatim>\<open>"1100"\<close>,
  \<^verbatim>\<open>"110".pad(4)\<close> is \<^verbatim>\<open>"0110"\<close>).
\<close>

definition truncate_bs :: "nat \<Rightarrow> BitString \<Rightarrow> BitString" where
  "truncate_bs n b = drop (length b - n) b"

definition pad :: "nat \<Rightarrow> BitString \<Rightarrow> BitString" where
  "pad n b = replicate (n - length b) False @ b"

section \<open>CircuitBus\<close>

text \<open>
  Modelled from the spec: the class \<^verbatim>\<open>CircuitBus\<close> (src/CircuitBus.ts is not among the
  sources). Spec 3 and 4.2: a bus has a width, a value that is a BitString or null, and
  \<open>last_update\<close>, the timestamp of its most recent value change (\<open>-1\<close> if unset). The
  connections to sibling buses and the attached elements belong to the scheduler and are
  not part of this record.
\<close>

record CircuitBus =
  width :: nat
  "value" :: "BitString option"
  lastUpdate :: int

text \<open>
  Modelled from the spec: \<^verbatim>\<open>setValue(value, timestamp?)\<close>, spec 4.2. Writing the value
  the bus already has is a no-op; otherwise the value is written and \<open>last_update\<close>
  becomes the timestamp. A call without a timestamp uses the scheduler's counter, which
  the callers below receive as the parameter \<open>now\<close>.
\<close>

definition setValue :: "BitString option \<Rightarrow> int \<Rightarrow> CircuitBus \<Rightarrow> CircuitBus" where
  "setValue v t b = (if v = value b then b else b\<lparr>value := v, lastUpdate := t\<rparr>)"

section \<open>Splitter (src/CircuitElement/Splitter.ts)\<close>

text \<open>
  The fields of the class. \<open>input\<close> is \<^verbatim>\<open>getInputs()[0]\<close> (the wide bus) and \<open>outputs\<close> is
  \<^verbatim>\<open>super.getOutputs().slice(1)\<close> (the narrow buses); the buses are taken to be distinct
  objects. \<open>lastOp\<close> is null or one of the strings \<^verbatim>\<open>"propOut"\<close> and \<^verbatim>\<open>"propIn"\<close>.
\<close>

datatype SplitterOp = PropOut | PropIn

record Splitter =
  split :: "nat list"
  bitMappings :: "nat list list option"
  input :: CircuitBus
  outputs :: "CircuitBus list"
  prevInput :: "BitString option"
  prevOutputs :: "BitString option list option"
  lastOp :: "SplitterOp option"

text \<open>The constructor: both length checks, then the initial state.\<close>

definition Splitter_new ::
  "nat list \<Rightarrow> CircuitBus \<Rightarrow> CircuitBus list \<Rightarrow> nat list list option \<Rightarrow> error + Splitter" where
  "Splitter_new sp inp outs bm =
     (if length sp \<noteq> length outs then Inl SplitterArgError
      else if (case bm of None \<Rightarrow> False | Some m \<Rightarrow> length m \<noteq> length sp)
      then Inl SplitterArgError
      else Inr \<lparr>split = sp, bitMappings = bm, input = inp, outputs = outs,
                prevInput = None, prevOutputs = None, lastOp = None\<rparr>)"

text \<open>\<^verbatim>\<open>#bitStringsEqual\<close>: element by element, null equal to null only.\<close>

fun bitStringsEqual :: "BitString option list \<Rightarrow> BitString option list \<Rightarrow> bool" where
  "bitStringsEqual [] [] = True"
| "bitStringsEqual (x # xs) (y # ys) = (x = y \<and> bitStringsEqual xs ys)"
| "bitStringsEqual _ _ = False"

text \<open>\<^verbatim>\<open>#nullOutputs\<close>: some narrow value is null.\<close>

definition nullOutputs :: "BitString option list \<Rightarrow> bool" where
  "nullOutputs a = (None \<in> set a)"

text \<open>
  \<^verbatim>\<open>#earliestOutput\<close>: the running minimum starts at \<open>-1\<close> and takes \<^verbatim>\<open>Math.min\<close> with the
  \<open>last_update\<close> of every narrow bus.
\<close>

definition earliestOutput :: "CircuitBus list \<Rightarrow> int" where
  "earliestOutput outs = foldl (\<lambda>m x. min m (lastUpdate x)) (- 1) outs"

text \<open>
  The bit at logical position \<open>bitIndex\<close> (0 is the least significant bit), read as
  \<^verbatim>\<open>input.substring(stringIndex, stringIndex + 1)\<close> with
  \<^verbatim>\<open>stringIndex = inputWidth - 1 - bitIndex\<close>. A position at or beyond the width makes
  both string indices at most 0, between which there is no bit.
\<close>

definition bitAt :: "BitString \<Rightarrow> nat \<Rightarrow> BitString" where
  "bitAt inp bitIndex =
     (if bitIndex < length inp
      then substring inp (length inp - 1 - bitIndex) (length inp - 1 - bitIndex + 1)
      else [])"

text \<open>
  The inner loop of the bit-mapping mode, \<^verbatim>\<open>for (j = bitIndices.length - 1; j >= 0; j--)\<close>:
  the bits of the listed positions, last listed position first.
\<close>

definition extractBits :: "BitString \<Rightarrow> nat list \<Rightarrow> BitString" where
  "extractBits inp bitIndices = concat (map (bitAt inp) (rev bitIndices))"

text \<open>
  \<^verbatim>\<open>#areConsistent\<close>. With bit mappings, port by port from the last to the first; the
  argument \<open>Suc i\<close> is the number of ports still to check and \<open>i\<close> the port of this
  iteration (\<^verbatim>\<open>i = split.length - 1 - s\<close>); a missing narrow value answers false before
  the port's bit list is read. Without, the wide value against the narrow values
  joined in array order (\<^verbatim>\<open>outputs.join("")\<close>, where null joins as the empty string).
\<close>

fun areConsistentMapped ::
  "nat list list \<Rightarrow> BitString \<Rightarrow> BitString option list \<Rightarrow> nat \<Rightarrow> error + bool" where
  "areConsistentMapped bm inp outs 0 = Inr True"
| "areConsistentMapped bm inp outs (Suc i) =
     (if i < length outs then
        (case outs ! i of
           None \<Rightarrow> Inr False
         | Some out \<Rightarrow>
             if i < length bm then
               (if extractBits inp (bm ! i) \<noteq> out then Inr False
                else areConsistentMapped bm inp outs i)
             else Inl TypeError)
      else Inr False)"

definition joinOutputs :: "BitString option list \<Rightarrow> BitString" where
  "joinOutputs outs = concat (map (\<lambda>v. case v of None \<Rightarrow> [] | Some b \<Rightarrow> b) outs)"

definition areConsistent :: "Splitter \<Rightarrow> BitString \<Rightarrow> BitString option list \<Rightarrow> error + bool" where
  "areConsistent sp inp outs =
     (case bitMappings sp of
        Some bm \<Rightarrow> areConsistentMapped bm inp outs (length (split sp))
      | None \<Rightarrow> Inr (inp = joinOutputs outs))"

text \<open>
  \<^verbatim>\<open>#propOut\<close>, contiguous mode. The source iterates \<^verbatim>\<open>s\<close> over the indices of \<^verbatim>\<open>#split\<close>
  and works on port \<^verbatim>\<open>i = split.length - 1 - s\<close>, so the ports are visited from the last
  to the first while \<^verbatim>\<open>off\<close> grows from 0. Here \<open>Suc i\<close> is the number of iterations left
  and \<open>i\<close> the port of this one. Reading a port past the end of the bus array gives
  \<^verbatim>\<open>undefined\<close>, whose \<^verbatim>\<open>getWidth()\<close> raises.
\<close>

fun propOutSeq ::
  "nat list \<Rightarrow> BitString \<Rightarrow> int \<Rightarrow> nat \<Rightarrow> nat \<Rightarrow> CircuitBus list \<Rightarrow> error + CircuitBus list" where
  "propOutSeq sp inp now 0 off outs = Inr outs"
| "propOutSeq sp inp now (Suc i) off outs =
     (if i < length outs then
        propOutSeq sp inp now i (off + sp ! i)
          (outs[i := setValue (Some (substring inp off (off + sp ! i))) now (outs ! i)])
      else Inl TypeError)"

text \<open>\<^verbatim>\<open>#propOut\<close>, bit-mapping mode: the same port order, each port set to its extracted bits.\<close>

fun propOutMapped ::
  "nat list list \<Rightarrow> BitString \<Rightarrow> int \<Rightarrow> nat \<Rightarrow> CircuitBus list \<Rightarrow> error + CircuitBus list" where
  "propOutMapped bm inp now 0 outs = Inr outs"
| "propOutMapped bm inp now (Suc i) outs =
     (if i < length bm \<and> i < length outs then
        propOutMapped bm inp now i
          (outs[i := setValue (Some (extractBits inp (bm ! i))) now (outs ! i)])
      else Inl TypeError)"

definition propOut :: "BitString \<Rightarrow> int \<Rightarrow> Splitter \<Rightarrow> error + Splitter" where
  "propOut inp now sp =
     (case (case bitMappings sp of
              Some bm \<Rightarrow> propOutMapped bm inp now (length (split sp)) (outputs sp)
            | None \<Rightarrow> propOutSeq (split sp) inp now (length (split sp)) 0 (outputs sp)) of
        Inl e \<Rightarrow> Inl e
      | Inr outs \<Rightarrow> Inr (sp\<lparr>outputs := outs, lastOp := Some PropOut\<rparr>))"

text \<open>
  \<^verbatim>\<open>#propIn\<close>, contiguous mode: the same port order; each port's bus width is checked
  against its split width, and its value (zeros when null) is appended to \<^verbatim>\<open>newOut\<close>.
\<close>

fun propInSeq ::
  "nat list \<Rightarrow> nat \<Rightarrow> CircuitBus list \<Rightarrow> BitString \<Rightarrow> error + BitString" where
  "propInSeq sp 0 outs newOut = Inr newOut"
| "propInSeq sp (Suc i) outs newOut =
     (if i < length outs then
        (if width (outs ! i) \<noteq> sp ! i then Inl BusWidthError
         else propInSeq sp i outs
                (newOut @ (case value (outs ! i) of
                             Some v \<Rightarrow> v
                           | None \<Rightarrow> low (width (outs ! i)))))
      else Inl TypeError)"

text \<open>
  \<^verbatim>\<open>#propIn\<close>, bit-mapping mode. \<open>placeBits\<close> is the loop over \<^verbatim>\<open>j\<close>: bit \<^verbatim>\<open>valStr[j]\<close> goes
  to position \<^verbatim>\<open>bitIndices[length - 1 - j]\<close> of \<^verbatim>\<open>inputBits\<close>, and a position already
  holding the other bit is a conflict. Every position is below \<^verbatim>\<open>inputWidth\<close>, which is
  one more than the largest listed position; a read past the array would give
  \<^verbatim>\<open>undefined\<close>, which the source's test also treats as a conflict.
\<close>

fun placeBits ::
  "nat list \<Rightarrow> BitString \<Rightarrow> bool option list \<Rightarrow> error + bool option list" where
  "placeBits [] _ inputBits = Inr inputBits"
| "placeBits (bitIndex # rest) [] inputBits = Inr inputBits"
| "placeBits (bitIndex # rest) (bitValue # vs) inputBits =
     (if bitIndex < length inputBits
         \<and> (inputBits ! bitIndex = None \<or> inputBits ! bitIndex = Some bitValue)
      then placeBits rest vs (inputBits[bitIndex := Some bitValue])
      else Inl BitConflict)"

fun propInMapped ::
  "nat list list \<Rightarrow> nat \<Rightarrow> CircuitBus list \<Rightarrow> bool option list \<Rightarrow> error + bool option list" where
  "propInMapped bm 0 outs inputBits = Inr inputBits"
| "propInMapped bm (Suc i) outs inputBits =
     (if i < length bm \<and> i < length outs then
        (case value (outs ! i) of
           None \<Rightarrow> propInMapped bm i outs inputBits
         | Some val \<Rightarrow>
             if length val \<noteq> length (bm ! i) then Inl BusWidthError
             else (case placeBits (rev (bm ! i)) val inputBits of
                     Inl e \<Rightarrow> Inl e
                   | Inr inputBits' \<Rightarrow> propInMapped bm i outs inputBits'))
      else Inl TypeError)"

definition inputWidthOf :: "nat list list \<Rightarrow> nat" where
  "inputWidthOf bm = foldl (\<lambda>m bitIndices. foldl (\<lambda>m' bitIndex. max m' (Suc bitIndex)) m bitIndices) 0 bm"

definition propIn :: "int \<Rightarrow> Splitter \<Rightarrow> error + Splitter" where
  "propIn now sp =
     (case (case bitMappings sp of
              Some bm \<Rightarrow>
                (case propInMapped bm (length (split sp)) (outputs sp)
                        (replicate (inputWidthOf bm) None) of
                   Inl e \<Rightarrow> Inl e
                 | Inr inputBits \<Rightarrow>
                     Inr (map (\<lambda>x. case x of None \<Rightarrow> False | Some v \<Rightarrow> v) (rev inputBits)))
            | None \<Rightarrow> propInSeq (split sp) (length (split sp)) (outputs sp) []) of
        Inl e \<Rightarrow> Inl e
      | Inr newOut \<Rightarrow>
          Inr (sp\<lparr>input := setValue (Some newOut) now (input sp), lastOp := Some PropIn\<rparr>))"

text \<open>\<^verbatim>\<open>[this.#prevInput, this.#prevOutputs] = this.#getValues()\<close>.\<close>

definition cacheValues :: "Splitter \<Rightarrow> Splitter" where
  "cacheValues sp =
     sp\<lparr>prevInput := value (input sp), prevOutputs := Some (map value (outputs sp))\<rparr>"

definition thenCache :: "error + Splitter \<Rightarrow> error + Splitter" where
  "thenCache r = (case r of Inl e \<Rightarrow> Inl e | Inr sp \<Rightarrow> Inr (cacheValues sp))"

text \<open>
  The two local constants of \<^verbatim>\<open>resolve()\<close>: whether the wide value, and whether the
  narrow values, differ from the ones cached by the previous call.
\<close>

definition inputChanged :: "Splitter \<Rightarrow> BitString \<Rightarrow> bool" where
  "inputChanged sp inp = (prevInput sp = None \<or> Some inp \<noteq> prevInput sp)"

definition outputsChanged :: "Splitter \<Rightarrow> BitString option list \<Rightarrow> bool" where
  "outputsChanged sp outs =
     (case prevOutputs sp of None \<Rightarrow> True | Some po \<Rightarrow> \<not> bitStringsEqual po outs)"

text \<open>
  \<^verbatim>\<open>resolve()\<close>. The result is the splitter after the call (its buses included), or the
  error thrown; the returned propagation delay is a constant of the base class.
\<close>

definition resolve :: "int \<Rightarrow> Splitter \<Rightarrow> error + Splitter" where
  "resolve now sp =
     (let outs = map value (outputs sp) in
      case value (input sp) of
        None \<Rightarrow>
          if \<not> nullOutputs outs then thenCache (propIn now sp) else Inr sp
      | Some inp \<Rightarrow>
          if nullOutputs outs then thenCache (propOut inp now sp)
          else
            (case areConsistent sp inp outs of
               Inl e \<Rightarrow> Inl e
             | Inr True \<Rightarrow> Inr (cacheValues sp)
             | Inr False \<Rightarrow>
                 (let inputUpdate = lastUpdate (input sp);
                      outputUpdate = earliestOutput (outputs sp)
                  in
                  if inputChanged sp inp \<and> inputUpdate < outputUpdate then
                    thenCache (propOut inp now sp)
                  else if outputsChanged sp outs \<and> outputUpdate < inputUpdate then
                    thenCache (propIn now sp)
                  else if inputUpdate = outputUpdate then Inl SplitterContention
                  else if inputUpdate > outputUpdate then thenCache (propOut inp now sp)
                  else if outputUpdate > inputUpdate then thenCache (propIn now sp)
                  else Inr (cacheValues sp))))"

text \<open>
  The contiguous \<^verbatim>\<open>propOut\<close> as the specification words it, for comparison with the
  source's: iterate \<open>i = N-1\<close> down to 0 with the offset growing from 0, and set
  \<open>narrow[N-1-i] := wide[offset : offset + split[i]]\<close>.
\<close>

fun propOutSpecSeq ::
  "nat list \<Rightarrow> BitString \<Rightarrow> int \<Rightarrow> nat \<Rightarrow> nat \<Rightarrow> CircuitBus list \<Rightarrow> error + CircuitBus list" where
  "propOutSpecSeq sp inp now 0 off outs = Inr outs"
| "propOutSpecSeq sp inp now (Suc i) off outs =
     (if length sp - 1 - i < length outs then
        propOutSpecSeq sp inp now i (off + sp ! i)
          (outs[length sp - 1 - i :=
                  setValue (Some (substring inp off (off + sp ! i))) now
                    (outs ! (length sp - 1 - i))])
      else Inl TypeError)"

definition propOutSpec :: "BitString \<Rightarrow> int \<Rightarrow> Splitter \<Rightarrow> error + Splitter" where
  "propOutSpec inp now sp =
     (case propOutSpecSeq (split sp) inp now (length (split sp)) 0 (outputs sp) of
        Inl e \<Rightarrow> Inl e
      | Inr outs \<Rightarrow> Inr (sp\<lparr>outputs := outs, lastOp := Some PropOut\<rparr>))"

text \<open>Splitters of the test file Splitter.test.ts: a 4-bit wide bus and two 2-bit narrow buses.\<close>

definition newBus :: "nat \<Rightarrow> CircuitBus" where
  "newBus w = \<lparr>width = w, value = None, lastUpdate = - 1\<rparr>"

definition testSplitter :: Splitter where
  "testSplitter =
     \<lparr>split = [2, 2], bitMappings = None, input = newBus 4, outputs = [newBus 2, newBus 2],
      prevInput = None, prevOutputs = None, lastOp = None\<rparr>"

definition testSplitterIn :: Splitter where
  "testSplitterIn =
     testSplitter\<lparr>outputs := [setValue (Some [True, True]) 0 (newBus 2),
                              setValue (Some [True, False]) 0 (newBus 2)]\<rparr>"

text \<open>
  The splitter of the test "propIn throws on output width mismatch" of Splitter.test.ts:
  split widths 2 and 2 on a 4-bit wide bus, but narrow buses of widths 1 and 2. The
  constructor checks the lengths of its arrays only and accepts it.
\<close>

definition mismatchedSplitter :: Splitter where
  "mismatchedSplitter = testSplitter\<lparr>outputs := [newBus 1, newBus 2]\<rparr>"

text \<open>
  A fresh splitter whose wide bus was set to 0000 at time \<open>tw\<close> and whose narrow buses
  were set to 11 and 10 at times \<open>ta\<close> and \<open>tb\<close>.
\<close>

definition stampedSplitter :: "int \<Rightarrow> int \<Rightarrow> int \<Rightarrow> Splitter" where
  "stampedSplitter tw ta tb =
     testSplitter\<lparr>input := setValue (Some [False, False, False, False]) tw (newBus 4),
                  outputs := [setValue (Some [True, True]) ta (newBus 2),
                              setValue (Some [True, False]) tb (newBus 2)]\<rparr>"

section \<open>Memory (abstract class Memory, src/unnamed/part_005)\<close>

text \<open>The fields of the class: the word size and the array of words.\<close>

record Memory =
  wordSize :: nat
  data :: "BitString list"

text \<open>
  \<^verbatim>\<open>array[i] = v\<close> on a JavaScript array: inside the array the element is replaced, one
  past the end the array grows by one. The callers below count \<open>i\<close> up from 0, so it
  never lies further out (where JavaScript would leave holes).
\<close>

definition arraySet :: "'a list \<Rightarrow> nat \<Rightarrow> 'a \<Rightarrow> 'a list" where
  "arraySet xs i v = (if i < length xs then xs[i := v] else xs @ [v])"

text \<open>
  \<^verbatim>\<open>array.splice(start, deleteCount, ...items)\<close>: a start past the end is the end, and no
  more elements are deleted than follow the start.
\<close>

definition splice :: "'a list \<Rightarrow> nat \<Rightarrow> nat \<Rightarrow> 'a list \<Rightarrow> 'a list" where
  "splice xs start deleteCount items =
     (let s = min start (length xs); d = min deleteCount (length xs - s)
      in take s xs @ items @ drop (s + d) xs)"

text \<open>The constructor: \<open>size\<close> zero words, then the initial words by index.\<close>

definition Memory_new :: "nat \<Rightarrow> nat \<Rightarrow> BitString list \<Rightarrow> Memory" where
  "Memory_new size' ws initialData =
     \<lparr>wordSize = ws,
      data = foldl (\<lambda>d (index, v). arraySet d index (pad ws (truncate_bs ws v)))
               (replicate size' (low ws)) (zip [0..<length initialData] initialData)\<rparr>"

text \<open>\<^verbatim>\<open>read(address, length)\<close> is \<^verbatim>\<open>data.slice(address, address + length)\<close>.\<close>

definition Memory_read :: "nat \<Rightarrow> nat \<Rightarrow> Memory \<Rightarrow> BitString list" where
  "Memory_read address len m = take len (drop address (data m))"

text \<open>\<^verbatim>\<open>write(address, value)\<close>: each word truncated and padded to the word size, then spliced in.\<close>

definition Memory_write :: "nat \<Rightarrow> BitString list \<Rightarrow> Memory \<Rightarrow> Memory" where
  "Memory_write address val m =
     (let words = map (\<lambda>v. pad (wordSize m) (truncate_bs (wordSize m) v)) val
      in m\<lparr>data := splice (data m) address (length words) words\<rparr>)"

text \<open>
  The loop of \<^verbatim>\<open>initialize\<close>:
  \<^verbatim>\<open>for (let pos = 0; pos < bits.length; pos += this.wordSize) data[i++] = slice\<close>.
  It is entered only after the width check, which throws for a word size of 0 (see
  \<open>initialize\<close>); the guard \<open>0 < ws\<close> stands for that.
\<close>

function initializeLoop :: "nat \<Rightarrow> BitString \<Rightarrow> nat \<Rightarrow> nat \<Rightarrow> BitString list \<Rightarrow> BitString list" where
  "initializeLoop ws bits pos i d =
     (if pos < length bits \<and> 0 < ws
      then initializeLoop ws bits (pos + ws) (Suc i) (arraySet d i (substring bits pos (pos + ws)))
      else d)"
  by pat_completeness auto
termination
  by (relation "measure (\<lambda>(ws, bits, pos, i, d). length bits - pos)") auto

text \<open>
  \<^verbatim>\<open>initialize(value)\<close>. The check is \<^verbatim>\<open>value.getWidth() % this.wordSize != 0\<close>; with a word
  size of 0 the remainder is NaN, which differs from 0, so the call throws.
\<close>

definition initialize :: "BitString \<Rightarrow> Memory \<Rightarrow> error + Memory" where
  "initialize val m =
     (if wordSize m = 0 \<or> getWidth val mod wordSize m \<noteq> 0 then Inl MemoryInitError
      else Inr (m\<lparr>data := initializeLoop (wordSize m) val 0 0 (data m)\<rparr>))"

section \<open>RAM\<close>

text \<open>
  Modelled from the spec: \<^verbatim>\<open>JLSRAM.resolve()\<close> (src/CircuitElement/JLSRAM.ts is not among
  the sources; its test file and the base class \<open>Memory\<close> are). Spec 4.5: the output is
  null unless CS is low and OE is low and the address is in range; a write occurs when
  CS is low and WE is low and the address is in range; out-of-range is a warning, not a
  fault. The write is the base class's \<^verbatim>\<open>write\<close> with the word on the data bus. The
  result pairs the flag "a MemoryOutOfRange warning was logged" with the new state.
\<close>

record JLSRAM =
  ram_memory :: Memory
  ram_address :: CircuitBus
  ram_data :: CircuitBus
  ram_output :: CircuitBus
  ram_enable :: CircuitBus
  ram_chipSelect :: CircuitBus
  ram_writeEnable :: CircuitBus

text \<open>Modelled from the spec: a control bus "is low" when it carries the 1-bit value 0.\<close>

definition isLow :: "CircuitBus \<Rightarrow> bool" where
  "isLow b = (value b = Some (low 1))"

text \<open>
  Modelled from the spec: the address "is in range" when the address bus holds a value
  whose unsigned reading is below the capacity, the number of stored words (spec 4.5).
\<close>

definition inRange :: "JLSRAM \<Rightarrow> bool" where
  "inRange r =
     (case value (ram_address r) of
        None \<Rightarrow> False
      | Some a \<Rightarrow> toUnsigned a < length (data (ram_memory r)))"

text \<open>Modelled from the spec: a write is requested when CS is low and WE is low (spec 4.5).\<close>

definition writeRequested :: "JLSRAM \<Rightarrow> bool" where
  "writeRequested r = (isLow (ram_chipSelect r) \<and> isLow (ram_writeEnable r))"

text \<open>
  Modelled from the spec: \<^verbatim>\<open>JLSRAM.resolve()\<close>, spec 4.5. A requested write with the address
  in range stores the word of the data bus (nothing is stored while the data bus is
  null); the output is the addressed word when CS and OE are low and the address is in
  range, and null otherwise; a request with the address out of range sets the warning
  flag.
\<close>

definition JLSRAM_resolve :: "int \<Rightarrow> JLSRAM \<Rightarrow> bool \<times> JLSRAM" where
  "JLSRAM_resolve now r =
     (let idx = (case value (ram_address r) of None \<Rightarrow> 0 | Some a \<Rightarrow> toUnsigned a);
          mem = (case value (ram_data r) of
                   Some w \<Rightarrow>
                     if writeRequested r \<and> inRange r then Memory_write idx [w] (ram_memory r)
                     else ram_memory r
                 | None \<Rightarrow> ram_memory r);
          out = (if isLow (ram_chipSelect r) \<and> isLow (ram_enable r) \<and> inRange r
                 then (case Memory_read idx 1 mem of [] \<Rightarrow> None | w # _ \<Rightarrow> Some w)
                 else None)
      in ((writeRequested r \<or> (isLow (ram_chipSelect r) \<and> isLow (ram_enable r))) \<and> \<not> inRange r,
          r\<lparr>ram_memory := mem, ram_output := setValue out now (ram_output r)\<rparr>))"

text \<open>The RAM of JLSRAM.test.ts: two 2-bit words 00 and 01 behind a 3-bit address bus.\<close>

definition testRAM :: JLSRAM where
  "testRAM =
     \<lparr>ram_memory = Memory_new 2 2 [[False, False], [False, True]],
      ram_address = setValue (Some [False, True, False]) 0 (newBus 3),
      ram_data = setValue (Some [True, True]) 0 (newBus 2),
      ram_output = newBus 2,
      ram_enable = newBus 1,
      ram_chipSelect = setValue (Some (low 1)) 0 (newBus 1),
      ram_writeEnable = setValue (Some (low 1)) 0 (newBus 1)\<rparr>"

section \<open>Extend (class Extend, src/unnamed/part_004)\<close>

text \<open>The element's single input bus and single output bus.\<close>

record Extend =
  ext_input :: CircuitBus
  ext_output :: CircuitBus

text \<open>The constructor: an input bus whose width is not 1 is refused.\<close>

definition Extend_new :: "CircuitBus \<Rightarrow> CircuitBus \<Rightarrow> error + Extend" where
  "Extend_new inp out =
     (if width inp \<noteq> 1 then Inl ExtendWidthError
      else Inr \<lparr>ext_input = inp, ext_output = out\<rparr>)"

text \<open>
  \<^verbatim>\<open>resolve()\<close>: a non-null input that reads as 0 sets the output to all zeros, one that
  reads as 1 sets it to all ones, and any other reading throws; a null input does
  nothing.
\<close>

definition Extend_resolve :: "int \<Rightarrow> Extend \<Rightarrow> error + Extend" where
  "Extend_resolve now e =
     (case value (ext_input e) of
        Some inputValue \<Rightarrow>
          (let v = toUnsigned inputValue in
           if v = 0 then
             Inr (e\<lparr>ext_output := setValue (Some (low (width (ext_output e)))) now (ext_output e)\<rparr>)
           else if v = 1 then
             Inr (e\<lparr>ext_output := setValue (Some (high (width (ext_output e)))) now (ext_output e)\<rparr>)
           else Inl UnexpectedInput)
      | None \<Rightarrow> Inr e)"

section \<open>D latch\<close>

text \<open>
  Modelled from the spec: \<^verbatim>\<open>DLatch.resolve()\<close> (src/CircuitElement/DLatch.ts is not among
  the sources; its test file is). Spec 4.4: a sequential element records the previous
  clock value on each \<^verbatim>\<open>resolve()\<close> and calls \<^verbatim>\<open>onClockRise\<close> when it sees the transition;
  "the source's behavior drives Q to \<open>\<not>D\<close> on rising edge" (also spec 9). DLatch.test.ts
  ("onClockRise sets q and qInv to not(d) (current implementation)") expects both
  \<open>q\<close> and \<open>qInv\<close> to hold \<open>not(d)\<close> after the rise. A null \<open>d\<close> is left out of the
  description and changes nothing here.
\<close>

record DLatch =
  dl_clock :: CircuitBus
  dl_d :: CircuitBus
  dl_q :: CircuitBus
  dl_qInv :: CircuitBus
  dl_lastClock :: "BitString option"

text \<open>
  Modelled from the spec: \<^verbatim>\<open>DLatch.onClockRise()\<close>, "drives Q to \<open>\<not>D\<close> on rising edge"
  (spec 4.4); \<open>qInv\<close> receives the same value, as DLatch.test.ts expects.
\<close>

definition DLatch_onClockRise :: "int \<Rightarrow> DLatch \<Rightarrow> DLatch" where
  "DLatch_onClockRise now l =
     (case value (dl_d l) of
        None \<Rightarrow> l
      | Some d \<Rightarrow> l\<lparr>dl_q := setValue (Some (bs_not d)) now (dl_q l),
                    dl_qInv := setValue (Some (bs_not d)) now (dl_qInv l)\<rparr>)"

text \<open>
  Modelled from the spec: \<^verbatim>\<open>DLatch.resolve()\<close>, which calls \<^verbatim>\<open>onClockRise\<close> when the recorded
  previous clock value is low and the clock is high, and records the clock value
  (spec 4.4).
\<close>

definition DLatch_resolve :: "int \<Rightarrow> DLatch \<Rightarrow> DLatch" where
  "DLatch_resolve now l =
     (let l' = (if dl_lastClock l = Some (low 1) \<and> value (dl_clock l) = Some (high 1)
                then DLatch_onClockRise now l else l)
      in l'\<lparr>dl_lastClock := value (dl_clock l)\<rparr>)"

text \<open>The latch of DLatch.test.ts: \<open>d\<close> high, the clock first low, then high.\<close>

definition testLatch :: DLatch where
  "testLatch =
     \<lparr>dl_clock = setValue (Some (low 1)) 0 (newBus 1),
      dl_d = setValue (Some (high 1)) 0 (newBus 1),
      dl_q = newBus 1, dl_qInv = newBus 1, dl_lastClock = None\<rparr>"

definition clockHigh :: "DLatch \<Rightarrow> DLatch" where
  "clockHigh l = l\<lparr>dl_clock := setValue (Some (high 1)) 1 (dl_clock l)\<rparr>"

section \<open>Scheduler\<close>

text \<open>
  Modelled from the spec: the resolve loop of \<^verbatim>\<open>Circuit.run()\<close> (src/Circuit.ts is not
  among the sources; its test file is). Spec 4.8, step 4: while the queue is non-empty,
  pop the element with the smallest scheduled time (ties by insertion order), resolve
  it, enqueue for each output bus that changed value every element attached to it with
  its delay added to the current time, and increment the step counter, failing with
  \<open>STEP_LIMIT_EXCEEDED\<close> when it exceeds 1,000,000.

  An element reads its input buses and computes the values of its output buses. A bus
  is an index into the list of bus values (buses connected to each other form one
  entry), and an element is attached to its input buses. A queue entry is a scheduled
  time and an element index, in insertion order.
\<close>

record Element =
  el_inputs :: "nat list"
  el_outputs :: "nat list"
  el_delay :: nat
  el_compute :: "BitString option list \<Rightarrow> BitString option list"

type_synonym Buses = "BitString option list"

type_synonym Queue = "(nat \<times> nat) list"

text \<open>Modelled from the spec: the step limit of 1,000,000 (spec 4.8, step 4d).\<close>

definition STEP_LIMIT :: nat where
  "STEP_LIMIT = 1000000"

text \<open>
  Modelled from the spec: the value of a bus (null for a bus the circuit does not have)
  and the elements attached to a bus, those that read it.
\<close>

definition busValue :: "Buses \<Rightarrow> nat \<Rightarrow> BitString option" where
  "busValue buses b = (if b < length buses then buses ! b else None)"

definition attachedTo :: "Element list \<Rightarrow> nat \<Rightarrow> nat list" where
  "attachedTo elems b = filter (\<lambda>e. b \<in> set (el_inputs (elems ! e))) [0..<length elems]"

text \<open>Modelled from the spec: the queue without its earliest entry scheduled at time \<open>t\<close>.\<close>

fun removeFirst :: "nat \<Rightarrow> Queue \<Rightarrow> Queue" where
  "removeFirst t [] = []"
| "removeFirst t (x # xs) = (if fst x = t then xs else x # removeFirst t xs)"

text \<open>
  Modelled from the spec: step 4a, the earliest inserted entry of the smallest
  scheduled time, and the queue without it.
\<close>

definition pop :: "Queue \<Rightarrow> ((nat \<times> nat) \<times> Queue) option" where
  "pop q =
     (if q = [] then None
      else (let t = foldl min (fst (hd q)) (map fst (tl q))
            in case find (\<lambda>y. fst y = t) q of
                 None \<Rightarrow> None
               | Some ev \<Rightarrow> Some (ev, removeFirst t q)))"

text \<open>
  Modelled from the spec: steps 4b and 4c for the popped entry \<open>fst p\<close> and the
  remaining queue \<open>snd p\<close>. The element's outputs are computed, the buses whose value
  changes are written, and the elements attached to them are appended to the queue.
  The queue only ever holds indices of elements of the circuit.
\<close>

definition fire :: "Element list \<Rightarrow> (nat \<times> nat) \<times> Queue \<Rightarrow> Buses \<Rightarrow> Buses \<times> Queue" where
  "fire elems p buses =
     (let t = fst (fst p); el = elems ! snd (fst p);
          new = zip (el_outputs el) (el_compute el (map (busValue buses) (el_inputs el)));
          changed = filter (\<lambda>(b, v). busValue buses b \<noteq> v) new;
          buses' = foldl (\<lambda>bs (b, v). bs[b := v]) buses changed
      in (buses',
          snd p @ concat (map (\<lambda>(b, v). map (\<lambda>x. (t + el_delay (elems ! x), x)) (attachedTo elems b))
                            changed)))"

text \<open>
  Modelled from the spec: step 4, the loop with its step counter. It ends when the
  queue is empty, or fails when the incremented counter exceeds the limit.
\<close>

function resolveLoop :: "Element list \<Rightarrow> Buses \<Rightarrow> Queue \<Rightarrow> nat \<Rightarrow> error + (Buses \<times> nat)" where
  "resolveLoop elems buses q steps =
     (case pop q of
        None \<Rightarrow> Inr (buses, steps)
      | Some p \<Rightarrow>
          if steps + 1 > STEP_LIMIT then Inl StepLimitExceeded
          else resolveLoop elems (fst (fire elems p buses)) (snd (fire elems p buses)) (steps + 1))"
  by pat_completeness auto
termination
  by (relation "measure (\<lambda>(elems, buses, q, steps). STEP_LIMIT + 1 - steps)") auto

text \<open>
  Modelled from the spec: \<^verbatim>\<open>run\<close> on the bus values left by seeding the inputs (steps 1 and 2): every element is
  enqueued with its propagation delay (step 3) and the loop starts with a step count
  of 0. The result is the final bus values with the step count, or the failure.
\<close>

definition initialQueue :: "Element list \<Rightarrow> Queue" where
  "initialQueue elems = map (\<lambda>e. (el_delay (elems ! e), e)) [0..<length elems]"

definition run :: "Element list \<Rightarrow> Buses \<Rightarrow> error + (Buses \<times> nat)" where
  "run elems seeded = resolveLoop elems seeded (initialQueue elems) 0"

text \<open>
  One scheduler step without the counter, and "the propagation never stabilizes": the
  queue is non-empty after any number of such steps.
\<close>

definition schedStep :: "Element list \<Rightarrow> Buses \<times> Queue \<Rightarrow> Buses \<times> Queue" where
  "schedStep elems s = (case pop (snd s) of None \<Rightarrow> s | Some p \<Rightarrow> fire elems p (fst s))"

definition neverStable :: "Element list \<Rightarrow> Buses \<Rightarrow> Queue \<Rightarrow> bool" where
  "neverStable elems buses q = (\<forall>n. snd ((schedStep elems ^^ n) (buses, q)) \<noteq> [])"

text \<open>
  The ring oscillator of the spec's boundary behaviours: a NOT gate whose output bus
  is its input bus. A gate that sees a null input gives null (spec 4.3).
\<close>

definition notGate :: "BitString option list \<Rightarrow> BitString option list" where
  "notGate ins = (case ins of [Some v] \<Rightarrow> [Some (bs_not v)] | _ \<Rightarrow> [None])"

definition ringOscillator :: "Element list" where
  "ringOscillator = [\<lparr>el_inputs = [0], el_outputs = [0], el_delay = 1, el_compute = notGate\<rparr>]"

section \<open>Properties of the splitter\<close>

lemma value_setValue: "value (setValue v t b) = v"
  by (simp add: setValue_def)

lemma width_setValue: "width (setValue v t b) = width b"
  by (simp add: setValue_def)

text \<open>The contiguous split leaves the ports it has not reached yet, and every bus width, alone.\<close>

lemma propOutSeq_frame:
  "propOutSeq sp inp now k off outs = Inr outs' \<Longrightarrow>
     length outs' = length outs \<and> (\<forall>j\<ge>k. outs' ! j = outs ! j)
       \<and> (\<forall>j. width (outs' ! j) = width (outs ! j))"
proof (induction k arbitrary: off outs)
  case 0
  then show ?case by simp
next
  case (Suc i)
  let ?o = "outs[i := setValue (Some (substring inp off (off + sp ! i))) now (outs ! i)]"
  from Suc.prems have lt: "i < length outs"
    and rec: "propOutSeq sp inp now i (off + sp ! i) ?o = Inr outs'"
    by (auto split: if_splits)
  from Suc.IH[OF rec] have a: "length outs' = length ?o" and b: "\<forall>j\<ge>i. outs' ! j = ?o ! j"
    and c: "\<forall>j. width (outs' ! j) = width (?o ! j)" by auto
  have w: "\<And>j. width (?o ! j) = width (outs ! j)"
    using lt by (simp add: nth_list_update width_setValue)
  show ?case using a b c w by simp
qed

lemma propOutSeq_total:
  "k \<le> length outs \<Longrightarrow> \<exists>outs'. propOutSeq sp inp now k off outs = Inr outs'"
  by (induction k arbitrary: off outs) auto

text \<open>
  Port \<open>i\<close> receives the slice that starts where the slices of the ports above it end.
\<close>

lemma propOutSeq_value:
  "propOutSeq sp inp now k off outs = Inr outs' \<Longrightarrow> k \<le> length sp \<Longrightarrow> i < k \<Longrightarrow>
     value (outs' ! i) =
       Some (substring inp (off + sum_list (drop (Suc i) (take k sp)))
                           (off + sum_list (drop (Suc i) (take k sp)) + sp ! i))"
proof (induction k arbitrary: off outs)
  case 0
  then show ?case by simp
next
  case (Suc m)
  let ?o = "outs[m := setValue (Some (substring inp off (off + sp ! m))) now (outs ! m)]"
  from Suc.prems have lt: "m < length outs"
    and rec: "propOutSeq sp inp now m (off + sp ! m) ?o = Inr outs'"
    by (auto split: if_splits)
  have tk: "take (Suc m) sp = take m sp @ [sp ! m]"
    using Suc.prems by (simp add: take_Suc_conv_app_nth)
  show ?case
  proof (cases "i = m")
    case True
    from propOutSeq_frame[OF rec] have "outs' ! m = ?o ! m" by simp
    then show ?thesis using True lt tk by (simp add: value_setValue)
  next
    case False
    with Suc.prems have im: "i < m" by simp
    from Suc.IH[OF rec _ im] Suc.prems
    have "value (outs' ! i) =
            Some (substring inp (off + sp ! m + sum_list (drop (Suc i) (take m sp)))
                    (off + sp ! m + sum_list (drop (Suc i) (take m sp)) + sp ! i))"
      by simp
    moreover have "sum_list (drop (Suc i) (take (Suc m) sp))
                     = sum_list (drop (Suc i) (take m sp)) + sp ! m"
      using im Suc.prems by (simp add: tk)
    ultimately show ?thesis by (simp add: ac_simps)
  qed
qed

text \<open>Combining what the split wrote gives back the bits the split read, in order.\<close>

lemma propInSeq_after_propOutSeq:
  "propOutSeq sp inp now k off outs = Inr outs' \<Longrightarrow> k \<le> length sp \<Longrightarrow>
   (\<forall>j<k. width (outs ! j) = sp ! j) \<Longrightarrow>
   propInSeq sp k outs' acc = Inr (acc @ take (sum_list (take k sp)) (drop off inp))"
proof (induction k arbitrary: off outs acc)
  case 0
  then show ?case by simp
next
  case (Suc m)
  let ?o = "outs[m := setValue (Some (substring inp off (off + sp ! m))) now (outs ! m)]"
  from Suc.prems have lt: "m < length outs"
    and rec: "propOutSeq sp inp now m (off + sp ! m) ?o = Inr outs'"
    by (auto split: if_splits)
  have tk: "take (Suc m) sp = take m sp @ [sp ! m]"
    using Suc.prems by (simp add: take_Suc_conv_app_nth)
  from propOutSeq_frame[OF rec] have len: "length outs' = length outs"
    and eqm: "outs' ! m = ?o ! m" and wd: "width (outs' ! m) = width (?o ! m)"
    by auto
  have vm: "value (outs' ! m) = Some (take (sp ! m) (drop off inp))"
    using eqm lt by (simp add: value_setValue substring_def)
  have wm: "width (outs' ! m) = sp ! m"
    using wd lt Suc.prems by (simp add: width_setValue)
  have pre: "\<forall>j<m. width (?o ! j) = sp ! j"
    using Suc.prems by (simp add: nth_list_update)
  have ih: "propInSeq sp m outs' (acc @ take (sp ! m) (drop off inp)) =
      Inr ((acc @ take (sp ! m) (drop off inp))
             @ take (sum_list (take m sp)) (drop (off + sp ! m) inp))"
    using Suc.IH[OF rec _ pre] Suc.prems by simp
  have cat: "take (sp ! m) (drop off inp) @ take (sum_list (take m sp)) (drop (off + sp ! m) inp)
      = take (sum_list (take (Suc m) sp)) (drop off inp)"
    by (simp add: tk take_add add.commute)
  show ?case using lt len wm vm ih cat by simp
qed

lemma propOut_contiguous:
  assumes "bitMappings sp = None" and "length (outputs sp) = length (split sp)"
  obtains outs' where "propOutSeq (split sp) inp now (length (split sp)) 0 (outputs sp) = Inr outs'"
    and "propOut inp now sp = Inr (sp\<lparr>outputs := outs', lastOp := Some PropOut\<rparr>)"
proof -
  from propOutSeq_total[of "length (split sp)" "outputs sp" "split sp" inp now 0] assms(2)
  obtain outs' where o: "propOutSeq (split sp) inp now (length (split sp)) 0 (outputs sp) = Inr outs'"
    by auto
  then have "propOut inp now sp = Inr (sp\<lparr>outputs := outs', lastOp := Some PropOut\<rparr>)"
    using assms(1) by (simp add: propOut_def)
  with o show ?thesis using that by blast
qed

text \<open>
  C2, as the code has it. In contiguous mode, with the split widths summing to the
  width of the wide bus, every narrow bus as wide as its split entry, and a wide value
  of the bus's width: \<open>propOut\<close> followed by \<open>propIn\<close> succeeds and leaves the original
  value on the wide bus. The condition on the narrow bus widths is needed: \<open>propIn\<close>
  compares each narrow bus's width with its split entry and throws on a difference.
\<close>

theorem propOut_propIn_roundtrip:
  assumes "bitMappings sp = None"
    and "length (outputs sp) = length (split sp)"
    and "\<forall>i<length (split sp). width (outputs sp ! i) = split sp ! i"
    and "sum_list (split sp) = width (input sp)"
    and "getWidth w = width (input sp)"
  shows "\<exists>sp1 sp2. propOut w now sp = Inr sp1 \<and> propIn now' sp1 = Inr sp2
           \<and> value (input sp2) = Some w"
proof -
  from propOut_contiguous[OF assms(1,2)] obtain outs'
    where o: "propOutSeq (split sp) w now (length (split sp)) 0 (outputs sp) = Inr outs'"
      and p: "propOut w now sp = Inr (sp\<lparr>outputs := outs', lastOp := Some PropOut\<rparr>)"
    by blast
  let ?sp1 = "sp\<lparr>outputs := outs', lastOp := Some PropOut\<rparr>"
  from propInSeq_after_propOutSeq[OF o _ assms(3), of "[]"]
  have "propInSeq (split sp) (length (split sp)) outs' [] = Inr (take (sum_list (split sp)) w)"
    by simp
  also have "take (sum_list (split sp)) w = w"
    using assms(4,5) by (simp add: getWidth_def)
  finally have q: "propIn now' ?sp1 =
      Inr (?sp1\<lparr>input := setValue (Some w) now' (input ?sp1), lastOp := Some PropIn\<rparr>)"
    using assms(1) by (simp add: propIn_def)
  show ?thesis using p q by (simp add: value_setValue)
qed

theorem propOut_propIn_roundtrip_witness:
  "\<exists>sp1 sp2. propOut [True, False, True, True] 0 testSplitter = Inr sp1
      \<and> propIn 1 sp1 = Inr sp2 \<and> value (input sp2) = Some [True, False, True, True]"
  using propOut_propIn_roundtrip[of testSplitter "[True, False, True, True]" 0 1]
  by (simp add: testSplitter_def newBus_def getWidth_def nth_Cons')

text \<open>
  Without the condition on the narrow bus widths the round trip fails. The splitter
  with split widths 2, 2 and narrow buses of widths 1 and 2 has no bit mappings, and
  its split widths sum to the width 4 of the wide bus; \<open>propOut\<close> of 1011 followed by
  \<open>propIn\<close> ends in the bus width error, as \<open>propIn\<close> does on the narrow values 1 and 10
  of the test.
\<close>

theorem propOut_propIn_width_counterexample:
  "bitMappings mismatchedSplitter = None
   \<and> length (outputs mismatchedSplitter) = length (split mismatchedSplitter)
   \<and> sum_list (split mismatchedSplitter) = width (input mismatchedSplitter)
   \<and> getWidth [True, False, True, True] = width (input mismatchedSplitter)
   \<and> split mismatchedSplitter = [2, 2]
   \<and> map width (outputs mismatchedSplitter) = [1, 2]
   \<and> propOut [True, False, True, True] 0 mismatchedSplitter
       = Inr (mismatchedSplitter
                \<lparr>outputs := [setValue (Some [True, True]) 0 (newBus 1),
                              setValue (Some [True, False]) 0 (newBus 2)],
                  lastOp := Some PropOut\<rparr>)
   \<and> propIn 1 (mismatchedSplitter
                  \<lparr>outputs := [setValue (Some [True, True]) 0 (newBus 1),
                                setValue (Some [True, False]) 0 (newBus 2)],
                    lastOp := Some PropOut\<rparr>)
       = Inl BusWidthError
   \<and> propIn 1 (mismatchedSplitter
                  \<lparr>outputs := [setValue (Some [True]) 0 (newBus 1),
                                setValue (Some [True, False]) 0 (newBus 2)]\<rparr>)
       = Inl BusWidthError"
  by (simp add: mismatchedSplitter_def testSplitter_def newBus_def getWidth_def propOut_def
      propIn_def setValue_def substring_def numeral_2_eq_2)

text \<open>
  C3. In contiguous mode the slice at offset 0 of the wide value, its most significant
  one, goes to the last narrow port. For the wide value 1011 and the split [2, 2],
  \<open>propOut\<close> sets narrow port 0 to 11 and narrow port 1 to 10, and \<open>propIn\<close> on those
  narrow values sets the wide bus to 1011.
\<close>

theorem propOut_first_slice_to_last_port:
  "(bitMappings sp = None \<and> length (outputs sp) = length (split sp) \<and> split sp \<noteq> [] \<longrightarrow>
      (\<exists>sp'. propOut w now sp = Inr sp'
         \<and> value (outputs sp' ! (length (split sp) - 1))
             = Some (substring w 0 (split sp ! (length (split sp) - 1)))))
   \<and> (\<exists>sp'. propOut [True, False, True, True] now testSplitter = Inr sp'
         \<and> map value (outputs sp') = [Some [True, True], Some [True, False]])
   \<and> (\<exists>sp'. propIn now testSplitterIn = Inr sp'
         \<and> value (input sp') = Some [True, False, True, True])"
proof (intro conjI impI)
  assume a: "bitMappings sp = None \<and> length (outputs sp) = length (split sp) \<and> split sp \<noteq> []"
  from propOut_contiguous[of sp w now] a obtain outs'
    where o: "propOutSeq (split sp) w now (length (split sp)) 0 (outputs sp) = Inr outs'"
      and p: "propOut w now sp = Inr (sp\<lparr>outputs := outs', lastOp := Some PropOut\<rparr>)"
    by blast
  from a have n: "length (split sp) - 1 < length (split sp)" by simp
  from propOutSeq_value[OF o _ n]
  have "value (outs' ! (length (split sp) - 1))
          = Some (substring w 0 (split sp ! (length (split sp) - 1)))"
    using a by simp
  with p show "\<exists>sp'. propOut w now sp = Inr sp'
         \<and> value (outputs sp' ! (length (split sp) - 1))
             = Some (substring w 0 (split sp ! (length (split sp) - 1)))"
    by simp
next
  show "\<exists>sp'. propOut [True, False, True, True] now testSplitter = Inr sp'
         \<and> map value (outputs sp') = [Some [True, True], Some [True, False]]"
    by (simp add: propOut_def testSplitter_def newBus_def numeral_2_eq_2 setValue_def
        substring_def)
next
  show "\<exists>sp'. propIn now testSplitterIn = Inr sp'
         \<and> value (input sp') = Some [True, False, True, True]"
    by (simp add: propIn_def testSplitterIn_def testSplitter_def newBus_def numeral_2_eq_2
        setValue_def)
qed

theorem propOut_first_slice_to_last_port_witness:
  "\<exists>sp'. propOut [False, True, True, False] 5 testSplitter = Inr sp'
      \<and> value (outputs sp' ! 1) = Some [False, True]"
  using propOut_first_slice_to_last_port[of testSplitter "[False, True, True, False]" 5]
  by (simp add: testSplitter_def substring_def)

text \<open>
  C4, as the code has it. In contiguous mode \<open>propOut\<close> visits the ports \<open>i = N-1\<close> down
  to 0 with the offset growing from 0 and sets narrow port \<open>i\<close> itself (not port
  \<open>N-1-i\<close>) to \<open>wide[offset : offset + split[i]]\<close>: the offset of port \<open>i\<close> is the sum of
  the split widths of the ports above it, so the first slice goes to port \<open>N-1\<close>.
\<close>

theorem propOut_contiguous_slices:
  assumes "bitMappings sp = None" and "length (outputs sp) = length (split sp)"
  shows "\<exists>sp'. propOut w now sp = Inr sp' \<and> length (outputs sp') = length (split sp)
           \<and> (\<forall>i<length (split sp).
                 value (outputs sp' ! i)
                   = Some (substring w (sum_list (drop (Suc i) (split sp)))
                                       (sum_list (drop (Suc i) (split sp)) + split sp ! i)))"
proof -
  from propOut_contiguous[OF assms] obtain outs'
    where o: "propOutSeq (split sp) w now (length (split sp)) 0 (outputs sp) = Inr outs'"
      and p: "propOut w now sp = Inr (sp\<lparr>outputs := outs', lastOp := Some PropOut\<rparr>)"
    by blast
  have "\<forall>i<length (split sp). value (outs' ! i)
          = Some (substring w (sum_list (drop (Suc i) (split sp)))
                              (sum_list (drop (Suc i) (split sp)) + split sp ! i))"
    using propOutSeq_value[OF o] by simp
  moreover have "length outs' = length (split sp)"
    using propOutSeq_frame[OF o] assms(2) by simp
  ultimately show ?thesis using p by simp
qed

theorem propOut_contiguous_slices_witness:
  "\<exists>sp'. propOut [True, False, True, True] 0 testSplitter = Inr sp'
      \<and> length (outputs sp') = 2
      \<and> value (outputs sp' ! 0) = Some [True, True]
      \<and> value (outputs sp' ! 1) = Some [True, False]"
proof -
  have h1: "bitMappings testSplitter = None"
    by (simp add: testSplitter_def)
  have h2: "length (outputs testSplitter) = length (split testSplitter)"
    by (simp add: testSplitter_def)
  from propOut_contiguous_slices[OF h1 h2, of "[True, False, True, True]" 0]
  obtain sp' where a: "propOut [True, False, True, True] 0 testSplitter = Inr sp'"
    and b: "length (outputs sp') = length (split testSplitter)"
    and c: "\<forall>i<length (split testSplitter).
              value (outputs sp' ! i)
                = Some (substring [True, False, True, True]
                          (sum_list (drop (Suc i) (split testSplitter)))
                          (sum_list (drop (Suc i) (split testSplitter)) + split testSplitter ! i))"
    by blast
  from c have "value (outputs sp' ! 0) = Some [True, True]"
    by (simp add: testSplitter_def substring_def)
  moreover from c have "value (outputs sp' ! 1) = Some [True, False]"
    by (simp add: testSplitter_def substring_def)
  moreover from b have "length (outputs sp') = 2"
    by (simp add: testSplitter_def)
  ultimately show ?thesis using a by simp
qed

text \<open>
  The algorithm as the specification words it writes the first slice 10 of 1011 to
  narrow port 0; the code writes 11 there and 10 to port 1.
\<close>

theorem propOut_spec_algorithm_counterexample:
  "propOutSpec [True, False, True, True] 0 testSplitter
     = Inr (testSplitter\<lparr>outputs := [setValue (Some [True, False]) 0 (newBus 2),
                                       setValue (Some [True, True]) 0 (newBus 2)],
                          lastOp := Some PropOut\<rparr>)
   \<and> propOut [True, False, True, True] 0 testSplitter
     = Inr (testSplitter\<lparr>outputs := [setValue (Some [True, True]) 0 (newBus 2),
                                       setValue (Some [True, False]) 0 (newBus 2)],
                          lastOp := Some PropOut\<rparr>)
   \<and> propOut [True, False, True, True] 0 testSplitter
        \<noteq> propOutSpec [True, False, True, True] 0 testSplitter"
  by (simp add: propOutSpec_def propOut_def testSplitter_def newBus_def numeral_2_eq_2
      setValue_def substring_def)

lemma bitStringsEqual_eq: "bitStringsEqual a b \<longleftrightarrow> a = b"
  by (induction a b rule: bitStringsEqual.induct) auto

lemma propOutSeq_no_contention:
  "propOutSeq sp inp now k off outs \<noteq> Inl SplitterContention"
  by (induction k arbitrary: off outs) auto

lemma propOutMapped_no_contention:
  "propOutMapped bm inp now k outs \<noteq> Inl SplitterContention"
  by (induction k arbitrary: outs) auto

lemma propInSeq_no_contention:
  "propInSeq sp k outs acc \<noteq> Inl SplitterContention"
  by (induction k arbitrary: acc) auto

lemma placeBits_no_contention:
  "placeBits ixs vs bits \<noteq> Inl SplitterContention"
  by (induction ixs vs bits rule: placeBits.induct) auto

lemma propInMapped_no_contention:
  "propInMapped bm k outs bits \<noteq> Inl SplitterContention"
proof (induction k arbitrary: bits)
  case 0
  show ?case by simp
next
  case (Suc i)
  show ?case
    using Suc placeBits_no_contention
    by (auto split: option.splits sum.splits)
qed

lemma propOut_no_contention: "thenCache (propOut inp now sp) \<noteq> Inl SplitterContention"
  using propOutSeq_no_contention propOutMapped_no_contention
  by (auto simp: thenCache_def propOut_def split: sum.splits option.splits)

lemma propIn_no_contention: "thenCache (propIn now sp) \<noteq> Inl SplitterContention"
  using propInSeq_no_contention propInMapped_no_contention
  by (auto simp: thenCache_def propIn_def split: sum.splits option.splits)

lemma inputChanged_iff: "inputChanged sp inp \<longleftrightarrow> prevInput sp \<noteq> Some inp"
  by (auto simp: inputChanged_def)

lemma outputsChanged_iff: "outputsChanged sp outs \<longleftrightarrow> prevOutputs sp \<noteq> Some outs"
  by (auto simp: outputsChanged_def bitStringsEqual_eq split: option.splits)

text \<open>
  \<open>#earliestOutput\<close> is the minimum of \<open>-1\<close> and the narrow buses' stamps, so it never
  exceeds \<open>-1\<close>, and it is \<open>-1\<close> whenever no narrow stamp lies below \<open>-1\<close>.
\<close>

lemma foldl_min_Min:
  "foldl (\<lambda>m x. min m (f x)) a xs = Min (insert (a::int) (f ` set xs))"
proof (induction xs arbitrary: a)
  case Nil
  show ?case by simp
next
  case (Cons x xs)
  have "Min (insert (min a (f x)) (f ` set xs)) = Min (insert a (insert (f x) (f ` set xs)))"
    by (cases "f ` set xs = {}") (simp_all add: min.assoc)
  with Cons show ?case by simp
qed

lemma earliestOutput_Min:
  "earliestOutput outs = Min (insert (- 1) (lastUpdate ` set outs))"
  by (simp add: earliestOutput_def foldl_min_Min)

lemma earliestOutput_le: "earliestOutput outs \<le> - 1"
  by (simp add: earliestOutput_Min)

lemma earliestOutput_stamped:
  "\<forall>b \<in> set outs. - 1 \<le> lastUpdate b \<Longrightarrow> earliestOutput outs = - 1"
  by (auto simp: earliestOutput_Min intro!: Min_eqI)

text \<open>
  The branches of \<open>resolve\<close> once the wide value and every narrow value are non-null
  and the source's own check \<open>#areConsistent\<close> has answered false (in contiguous mode that
  check joins the narrow values in array order, not in the reversed port order that
  \<open>propOut\<close> and \<open>propIn\<close> use). The wide stamp is compared with the number that
  \<open>#earliestOutput\<close> returns: contention exactly when the two are equal; with a smaller
  wide stamp (which needs a stamp below \<open>-1\<close>) \<open>propOut\<close> if the wide value differs from
  the cached one and \<open>propIn\<close> otherwise; with a greater wide stamp \<open>propIn\<close> if the
  narrow values differ from the cached ones and \<open>propOut\<close> otherwise.
\<close>

lemma resolve_branches:
  assumes "value (input sp) = Some inp"
    and "\<not> nullOutputs (map value (outputs sp))"
    and "areConsistent sp inp (map value (outputs sp)) = Inr False"
  shows "(resolve now sp = Inl SplitterContention
            \<longleftrightarrow> lastUpdate (input sp) = earliestOutput (outputs sp))
       \<and> (lastUpdate (input sp) < earliestOutput (outputs sp) \<longrightarrow>
            resolve now sp
              = thenCache (if prevInput sp \<noteq> Some inp then propOut inp now sp
                           else propIn now sp))
       \<and> (earliestOutput (outputs sp) < lastUpdate (input sp) \<longrightarrow>
            resolve now sp
              = thenCache (if prevOutputs sp \<noteq> Some (map value (outputs sp))
                           then propIn now sp else propOut inp now sp))"
proof -
  let ?tw = "lastUpdate (input sp)" and ?tn = "earliestOutput (outputs sp)"
  have eq: "?tw = ?tn \<Longrightarrow> resolve now sp = Inl SplitterContention"
    using assms by (simp add: resolve_def Let_def)
  have lt: "?tw < ?tn \<Longrightarrow> resolve now sp
              = thenCache (if prevInput sp \<noteq> Some inp then propOut inp now sp
                           else propIn now sp)"
    using assms by (simp add: resolve_def Let_def inputChanged_iff)
  have gt: "?tn < ?tw \<Longrightarrow> resolve now sp
              = thenCache (if prevOutputs sp \<noteq> Some (map value (outputs sp))
                           then propIn now sp else propOut inp now sp)"
    using assms by (simp add: resolve_def Let_def outputsChanged_iff)
  have "resolve now sp = Inl SplitterContention \<Longrightarrow> ?tw = ?tn"
  proof (rule ccontr)
    assume r: "resolve now sp = Inl SplitterContention" and ne: "?tw \<noteq> ?tn"
    then consider "?tw < ?tn" | "?tn < ?tw" by linarith
    then show False
    proof cases
      case 1
      from lt[OF 1] r show False
        using propOut_no_contention[of inp now sp] propIn_no_contention[of now sp]
        by (simp split: if_splits)
    next
      case 2
      from gt[OF 2] r show False
        using propOut_no_contention[of inp now sp] propIn_no_contention[of now sp]
        by (simp split: if_splits)
    qed
  qed
  with eq lt gt show ?thesis by blast
qed

text \<open>
  On a fresh splitter with the wide bus stamped 7 and both narrow buses stamped 3 the
  narrow values count as changed, and \<open>resolve\<close> combines them into the wide bus.
\<close>

lemma resolve_changed_narrow_side_example:
  "lastUpdate (input (stampedSplitter 7 3 3)) = 7
   \<and> map lastUpdate (outputs (stampedSplitter 7 3 3)) = [3, 3]
   \<and> resolve 9 (stampedSplitter 7 3 3) = thenCache (propIn 9 (stampedSplitter 7 3 3))
   \<and> resolve 9 (stampedSplitter 7 3 3)
        \<noteq> thenCache (propOut [False, False, False, False] 9 (stampedSplitter 7 3 3))"
  by (simp add: stampedSplitter_def testSplitter_def newBus_def setValue_def
      areConsistent_def joinOutputs_def resolve_def nullOutputs_def earliestOutput_def
      inputChanged_def outputsChanged_def thenCache_def propIn_def propOut_def
      cacheValues_def numeral_2_eq_2 substring_def Let_def)

text \<open>
  C1, at a failing input. A fresh splitter whose wide bus holds 0000 and whose narrow
  buses hold 11 and 10, all three stamped 3: the values disagree and \<open>t_wide\<close> equals
  the minimum 3 of the narrow stamps, yet \<open>#earliestOutput\<close> returns \<open>-1\<close> and \<open>resolve\<close>
  raises no contention error; it combines the narrow values and sets the wide bus to
  1011. With all three buses stamped \<open>-1\<close>, as in the contention test of
  Splitter.test.ts, the same values do raise the contention error.
\<close>

theorem resolve_equal_stamps_no_contention:
  "value (input (stampedSplitter 3 3 3)) = Some [False, False, False, False]
   \<and> map value (outputs (stampedSplitter 3 3 3)) = [Some [True, True], Some [True, False]]
   \<and> lastUpdate (input (stampedSplitter 3 3 3)) = 3
   \<and> map lastUpdate (outputs (stampedSplitter 3 3 3)) = [3, 3]
   \<and> earliestOutput (outputs (stampedSplitter 3 3 3)) = - 1
   \<and> areConsistent (stampedSplitter 3 3 3) [False, False, False, False]
        (map value (outputs (stampedSplitter 3 3 3))) = Inr False
   \<and> resolve 9 (stampedSplitter 3 3 3)
       = Inr (stampedSplitter 3 3 3
                \<lparr>input := \<lparr>width = 4, value = Some [True, False, True, True], lastUpdate = 9\<rparr>,
                  prevInput := Some [True, False, True, True],
                  prevOutputs := Some [Some [True, True], Some [True, False]],
                  lastOp := Some PropIn\<rparr>)
   \<and> resolve 9 (stampedSplitter 3 3 3) \<noteq> Inl SplitterContention
   \<and> resolve 9 (stampedSplitter (- 1) (- 1) (- 1)) = Inl SplitterContention"
  by (simp add: stampedSplitter_def testSplitter_def newBus_def setValue_def
      areConsistent_def joinOutputs_def resolve_def nullOutputs_def earliestOutput_def
      inputChanged_def outputsChanged_def thenCache_def propIn_def propOut_def
      cacheValues_def numeral_2_eq_2 substring_def Let_def)

section \<open>Properties of the bit strings\<close>

lemma toUnsigned_snoc: "toUnsigned (b @ [x]) = 2 * toUnsigned b + (if x then 1 else 0)"
  by (simp add: toUnsigned_def)

lemma toUnsigned_Nil: "toUnsigned [] = 0"
  by (simp add: toUnsigned_def)

lemma toUnsigned_lt: "toUnsigned b < 2 ^ length b"
  by (induction b rule: rev_induct) (auto simp: toUnsigned_snoc toUnsigned_Nil)

lemma length_make: "length (make_bs v w) = w"
  by (induction w arbitrary: v) auto

lemma make_toUnsigned: "make_bs (toUnsigned b) (length b) = b"
  by (induction b rule: rev_induct) (auto simp: toUnsigned_snoc toUnsigned_Nil)

lemma toUnsigned_make: "toUnsigned (make_bs v w) = v mod 2 ^ w"
proof (induction w arbitrary: v)
  case 0
  show ?case by (simp add: toUnsigned_Nil)
next
  case (Suc w)
  have "v mod (2 * 2 ^ w) = 2 * (v div 2 mod 2 ^ w) + v mod 2"
    by (rule mod_mult2_eq)
  then show ?case
    using Suc by (simp add: toUnsigned_snoc odd_iff_mod_2_eq_one)
qed

lemma toUnsigned_not: "toUnsigned (bs_not b) + toUnsigned b + 1 = 2 ^ length b"
  by (induction b rule: rev_induct) (auto simp: bs_not_def toUnsigned_snoc toUnsigned_Nil)

lemma twosCompliment_value:
  "twosCompliment b = Inr (make_bs ((2 ^ length b - toUnsigned b) mod 2 ^ length b) (length b))"
proof -
  let ?n = "length b"
  have "toUnsigned (bs_not b) + 1 = 2 ^ ?n - toUnsigned b"
    using toUnsigned_not[of b] by simp
  then have "(toUnsigned (bs_not b) + 1 mod 2 ^ ?n) mod 2 ^ ?n = (2 ^ ?n - toUnsigned b) mod 2 ^ ?n"
    by (metis mod_add_right_eq)
  then show ?thesis
    by (simp add: twosCompliment_def add_def bs_not_def length_make toUnsigned_make)
qed

text \<open>
  C9. For every bit string, \<open>not\<close> applied twice gives the value back, and so does
  \<open>twosCompliment\<close> applied twice, where \<open>twosCompliment\<close> is \<open>not\<close> followed by adding 1
  at the original width with wrap-around.
\<close>

theorem not_twosCompliment_involutions:
  "bs_not (bs_not b) = b
   \<and> twosCompliment b = add (bs_not b) (make_bs 1 (length b))
   \<and> (\<exists>t. twosCompliment b = Inr t \<and> length t = length b \<and> twosCompliment t = Inr b)"
proof -
  let ?n = "length b" and ?u = "toUnsigned b"
  define t where "t = make_bs ((2 ^ ?n - ?u) mod 2 ^ ?n) ?n"
  have lt: "?u < 2 ^ ?n" by (rule toUnsigned_lt)
  have tl: "length t = ?n" by (simp add: t_def length_make)
  have tu: "toUnsigned t = (2 ^ ?n - ?u) mod 2 ^ ?n"
    by (simp add: t_def toUnsigned_make)
  have inv2: "(2 ^ ?n - toUnsigned t) mod 2 ^ ?n = ?u"
  proof (cases "?u = 0")
    case True
    with tu have "toUnsigned t = 0" by simp
    with True show ?thesis by simp
  next
    case False
    with lt have "(2 ^ ?n - ?u) mod 2 ^ ?n = 2 ^ ?n - ?u" by simp
    with tu have "toUnsigned t = 2 ^ ?n - ?u" by simp
    with lt False show ?thesis by simp
  qed
  have "twosCompliment t = Inr (make_bs ?u ?n)"
    using twosCompliment_value[of t] inv2 tl by simp
  then have "twosCompliment t = Inr b" by (simp add: make_toUnsigned)
  moreover have "twosCompliment b = Inr t" unfolding t_def by (rule twosCompliment_value)
  moreover have "bs_not (bs_not b) = b" by (simp add: bs_not_def comp_def)
  ultimately show ?thesis using tl by (simp add: twosCompliment_def)
qed

section \<open>Properties of the memory\<close>

lemma initializeLoop_words:
  "0 < ws \<Longrightarrow> pos = i * ws \<Longrightarrow> i \<le> length d \<Longrightarrow>
   (\<forall>j<i. initializeLoop ws bits pos i d ! j = d ! j)
   \<and> (\<forall>j. j * ws < length bits \<longrightarrow> j < length (initializeLoop ws bits pos i d))
   \<and> (\<forall>j\<ge>i. j * ws < length bits \<longrightarrow>
          initializeLoop ws bits pos i d ! j = substring bits (j * ws) (j * ws + ws))"
proof (induction ws bits pos i d rule: initializeLoop.induct)
  case (1 ws bits pos i d)
  show ?case
  proof (cases "pos < length bits")
    case False
    have n: "j < i" if "j * ws < length bits" for j
    proof (rule ccontr)
      assume "\<not> j < i"
      then have "i * ws \<le> j * ws" by simp
      with that False "1.prems" show False by simp
    qed
    have e: "initializeLoop ws bits pos i d = d"
      using False by (subst initializeLoop.simps) simp
    have "\<forall>j. j * ws < length bits \<longrightarrow> j < length d"
      using n "1.prems"(3) by (meson less_le_trans)
    moreover have "\<forall>j\<ge>i. j * ws < length bits \<longrightarrow> d ! j = substring bits (j * ws) (j * ws + ws)"
      using n by (meson leD)
    ultimately show ?thesis unfolding e by simp
  next
    case True
    let ?d = "arraySet d i (substring bits pos (pos + ws))"
    let ?r = "initializeLoop ws bits (pos + ws) (Suc i) ?d"
    have r: "initializeLoop ws bits pos i d = ?r"
      using True "1.prems" by (subst initializeLoop.simps) simp
    have len: "Suc i \<le> length ?d" and at: "?d ! i = substring bits pos (pos + ws)"
      and below: "\<forall>j<i. ?d ! j = d ! j"
      using "1.prems" by (auto simp: arraySet_def nth_append)
    have ih: "(\<forall>j<Suc i. ?r ! j = ?d ! j)
       \<and> (\<forall>j. j * ws < length bits \<longrightarrow> j < length ?r)
       \<and> (\<forall>j\<ge>Suc i. j * ws < length bits \<longrightarrow> ?r ! j = substring bits (j * ws) (j * ws + ws))"
      using "1.IH"[OF _ "1.prems"(1) _ len] True "1.prems" by simp
    have "?r ! j = substring bits (j * ws) (j * ws + ws)" if "i \<le> j" "j * ws < length bits" for j
    proof (cases "j = i")
      case True
      then show ?thesis using ih at "1.prems" by simp
    next
      case False
      with that have "Suc i \<le> j" by simp
      with ih that show ?thesis by blast
    qed
    moreover have "\<forall>j<i. ?r ! j = d ! j" using ih below by simp
    ultimately show ?thesis using ih r by simp
  qed
qed

text \<open>
  C7. For a memory with a positive word size \<open>W\<close>, \<open>initialize\<close> raises an error exactly
  when the width of the value is not a multiple of \<open>W\<close>; otherwise it succeeds, leaves
  the word size alone, and word \<open>i\<close> of the memory holds the bits \<open>[i*W, (i+1)*W)\<close> of the
  value, counted from the most significant bit, for every \<open>i\<close> below \<open>width / W\<close>.
\<close>

theorem initialize_words:
  assumes "0 < wordSize m"
  shows "((\<exists>e. initialize val m = Inl e) \<longleftrightarrow> \<not> wordSize m dvd getWidth val)
       \<and> (wordSize m dvd getWidth val \<longrightarrow>
            (\<exists>m'. initialize val m = Inr m' \<and> wordSize m' = wordSize m
               \<and> (\<forall>i < getWidth val div wordSize m.
                     i < length (data m')
                     \<and> data m' ! i = substring val (i * wordSize m) ((i + 1) * wordSize m))))"
proof -
  let ?W = "wordSize m"
  have err: "(\<exists>e. initialize val m = Inl e) \<longleftrightarrow> \<not> ?W dvd getWidth val"
    using assms by (auto simp: initialize_def dvd_eq_mod_eq_0)
  have ok: "\<exists>m'. initialize val m = Inr m' \<and> wordSize m' = ?W
               \<and> (\<forall>i < getWidth val div ?W. i < length (data m')
                     \<and> data m' ! i = substring val (i * ?W) ((i + 1) * ?W))"
    if d: "?W dvd getWidth val"
  proof -
    let ?r = "initializeLoop ?W val 0 0 (data m)"
    have i: "initialize val m = Inr (m\<lparr>data := ?r\<rparr>)"
      using assms d by (simp add: initialize_def dvd_eq_mod_eq_0)
    have inv: "(\<forall>j. j * ?W < length val \<longrightarrow> j < length ?r)
       \<and> (\<forall>j\<ge>0. j * ?W < length val \<longrightarrow> ?r ! j = substring val (j * ?W) (j * ?W + ?W))"
      using initializeLoop_words[OF assms, of 0 0 "data m" val] by simp
    have "i * ?W < length val" if "i < getWidth val div ?W" for i
    proof -
      from that have "Suc i \<le> length val div ?W" by (simp add: getWidth_def)
      then have "Suc i * ?W \<le> length val div ?W * ?W" by (rule mult_le_mono1)
      also have "\<dots> \<le> length val" by simp
      finally show ?thesis using assms by simp
    qed
    with inv i show ?thesis by (simp add: add.commute)
  qed
  from err ok show ?thesis by blast
qed

theorem initialize_words_witness:
  "(\<exists>e. initialize [True, False, True] (Memory_new 4 2 []) = Inl e)
   \<and> (\<exists>m'. initialize [True, False, True, False] (Memory_new 4 2 []) = Inr m'
         \<and> data m' ! 0 = [True, False] \<and> data m' ! 1 = [True, False])"
proof -
  have w: "wordSize (Memory_new 4 2 []) = 2" by (simp add: Memory_new_def)
  have p: "0 < wordSize (Memory_new 4 2 [])" by (simp add: w)
  have d3: "\<not> wordSize (Memory_new 4 2 []) dvd getWidth [True, False, True]"
    by (simp add: w getWidth_def)
  have d4: "wordSize (Memory_new 4 2 []) dvd getWidth [True, False, True, False]"
    by (simp add: w getWidth_def)
  from initialize_words[OF p, of "[True, False, True]"] d3
  have a: "\<exists>e. initialize [True, False, True] (Memory_new 4 2 []) = Inl e" by blast
  from initialize_words[OF p, of "[True, False, True, False]"] d4
  obtain m' where i: "initialize [True, False, True, False] (Memory_new 4 2 []) = Inr m'"
    and words: "\<forall>i < getWidth [True, False, True, False] div wordSize (Memory_new 4 2 []).
                  i < length (data m')
                  \<and> data m' ! i = substring [True, False, True, False]
                                    (i * wordSize (Memory_new 4 2 []))
                                    ((i + 1) * wordSize (Memory_new 4 2 []))"
    by blast
  from words have "data m' ! 0 = [True, False]"
    by (simp add: w getWidth_def substring_def)
  moreover from words have "data m' ! 1 = [True, False]"
    by (simp add: w getWidth_def substring_def)
  ultimately show ?thesis using a i by blast
qed

section \<open>Properties of the RAM\<close>

text \<open>
  The base class's \<^verbatim>\<open>write\<close> does not check the address. In range it replaces the
  addressed word; past the end of the array the splice appends, so the guard of the
  RAM is what keeps the capacity.
\<close>

lemma Memory_write_in_range:
  "a < length (data m) \<Longrightarrow>
     data (Memory_write a [w] m) = (data m)[a := pad (wordSize m) (truncate_bs (wordSize m) w)]"
  by (simp add: Memory_write_def splice_def Let_def upd_conv_take_nth_drop min_def)

lemma Memory_write_past_end:
  "length (data m) \<le> a \<Longrightarrow>
     data (Memory_write a [w] m) = data m @ [pad (wordSize m) (truncate_bs (wordSize m) w)]"
  by (simp add: Memory_write_def splice_def Let_def)

text \<open>
  C8. A RAM whose address bus holds an address at or beyond the capacity keeps its
  memory, contents and capacity, whatever the other buses hold, and \<open>resolve\<close> returns
  normally (its only report is the warning flag). Whenever \<open>resolve\<close> changes the memory,
  chip-select is low, write-enable is low and the address is in range.
\<close>

theorem RAM_write_out_of_range_dropped:
  "(value (ram_address r) = Some a \<and> length (data (ram_memory r)) \<le> toUnsigned a \<longrightarrow>
      ram_memory (snd (JLSRAM_resolve now r)) = ram_memory r
      \<and> length (data (ram_memory (snd (JLSRAM_resolve now r)))) = length (data (ram_memory r))
      \<and> (writeRequested r \<longrightarrow> fst (JLSRAM_resolve now r)))
   \<and> (ram_memory (snd (JLSRAM_resolve now r)) \<noteq> ram_memory r \<longrightarrow>
        isLow (ram_chipSelect r) \<and> isLow (ram_writeEnable r) \<and> inRange r)"
  by (auto simp: JLSRAM_resolve_def Let_def inRange_def writeRequested_def
      split: option.splits)

theorem RAM_write_out_of_range_dropped_witness:
  "writeRequested testRAM
   \<and> value (ram_address testRAM) = Some [False, True, False]
   \<and> toUnsigned [False, True, False] = 2
   \<and> data (ram_memory testRAM) = [[False, False], [False, True]]
   \<and> data (ram_memory (snd (JLSRAM_resolve 1 testRAM))) = [[False, False], [False, True]]
   \<and> fst (JLSRAM_resolve 1 testRAM)"
proof -
  have a: "value (ram_address testRAM) = Some [False, True, False]"
    by (simp add: testRAM_def newBus_def setValue_def)
  have u: "toUnsigned [False, True, False] = 2"
    by (simp add: toUnsigned_def)
  have d: "data (ram_memory testRAM) = [[False, False], [False, True]]"
    by (simp add: testRAM_def Memory_new_def low_def arraySet_def pad_def truncate_bs_def
        numeral_2_eq_2)
  have wr: "writeRequested testRAM"
    by (simp add: writeRequested_def isLow_def testRAM_def newBus_def setValue_def)
  from RAM_write_out_of_range_dropped[of testRAM "[False, True, False]" 1] a u d wr
  have "ram_memory (snd (JLSRAM_resolve 1 testRAM)) = ram_memory testRAM
        \<and> fst (JLSRAM_resolve 1 testRAM)"
    by simp
  with a u d wr show ?thesis by simp
qed

section \<open>Properties of the Extend element\<close>

lemma toUnsigned_width1: "length v = 1 \<Longrightarrow> toUnsigned v = (if hd v then 1 else 0)"
  by (cases v) (auto simp: toUnsigned_def)

text \<open>
  C10. The constructor accepts an input bus exactly when its width is 1. For an element
  whose input bus has width 1 and carries values of that width, \<open>resolve\<close> never takes
  the error branch: a non-null input reads as 0 or 1, the output bus is set to all
  zeros for 0 and to all ones for 1, and a null input leaves the element, its output
  bus included, unchanged.
\<close>

theorem Extend_resolve_safe:
  "((\<exists>e. Extend_new inp out = Inr e) \<longleftrightarrow> width inp = 1)
   \<and> (width (ext_input e) = 1
        \<and> (\<forall>v. value (ext_input e) = Some v \<longrightarrow> getWidth v = width (ext_input e)) \<longrightarrow>
       (case value (ext_input e) of
          None \<Rightarrow> Extend_resolve now e = Inr e
        | Some v \<Rightarrow>
            (toUnsigned v = 0 \<or> toUnsigned v = 1)
            \<and> (\<exists>e'. Extend_resolve now e = Inr e'
                  \<and> ext_input e' = ext_input e
                  \<and> width (ext_output e') = width (ext_output e)
                  \<and> value (ext_output e')
                       = Some (if toUnsigned v = 0 then low (width (ext_output e))
                               else high (width (ext_output e))))))"
proof (intro conjI impI)
  show "(\<exists>e. Extend_new inp out = Inr e) \<longleftrightarrow> width inp = 1"
    by (simp add: Extend_new_def)
next
  assume a: "width (ext_input e) = 1
        \<and> (\<forall>v. value (ext_input e) = Some v \<longrightarrow> getWidth v = width (ext_input e))"
  show "case value (ext_input e) of
          None \<Rightarrow> Extend_resolve now e = Inr e
        | Some v \<Rightarrow>
            (toUnsigned v = 0 \<or> toUnsigned v = 1)
            \<and> (\<exists>e'. Extend_resolve now e = Inr e'
                  \<and> ext_input e' = ext_input e
                  \<and> width (ext_output e') = width (ext_output e)
                  \<and> value (ext_output e')
                       = Some (if toUnsigned v = 0 then low (width (ext_output e))
                               else high (width (ext_output e))))"
  proof (cases "value (ext_input e)")
    case None
    then show ?thesis by (simp add: Extend_resolve_def)
  next
    case (Some v)
    with a have "length v = 1" by (simp add: getWidth_def)
    then have "toUnsigned v = (if hd v then 1 else 0)" by (rule toUnsigned_width1)
    then show ?thesis
      using Some by (simp add: Extend_resolve_def setValue_def)
  qed
qed

theorem Extend_resolve_safe_witness:
  "(\<exists>e. Extend_new (newBus 1) (newBus 4) = Inr e)
   \<and> (\<exists>e'. Extend_resolve 0
              \<lparr>ext_input = setValue (Some [True]) 0 (newBus 1), ext_output = newBus 4\<rparr> = Inr e'
         \<and> value (ext_output e') = Some [True, True, True, True])"
proof -
  let ?e = "\<lparr>ext_input = setValue (Some [True]) 0 (newBus 1), ext_output = newBus 4\<rparr>"
  have v: "value (ext_input ?e) = Some [True]"
    by (simp add: setValue_def newBus_def)
  have h: "width (ext_input ?e) = 1
        \<and> (\<forall>v. value (ext_input ?e) = Some v \<longrightarrow> getWidth v = width (ext_input ?e))"
    by (auto simp: setValue_def newBus_def getWidth_def)
  have u: "toUnsigned [True] = 1" by (simp add: toUnsigned_def)
  have hi: "high (width (ext_output ?e)) = [True, True, True, True]"
    by (simp add: high_def newBus_def numeral_eq_Suc)
  from Extend_resolve_safe[of "newBus 1" "newBus 4" ?e 0] h
  have c: "(\<exists>e. Extend_new (newBus 1) (newBus 4) = Inr e) = (width (newBus 1) = 1)"
    and r: "case value (ext_input ?e) of
          None \<Rightarrow> Extend_resolve 0 ?e = Inr ?e
        | Some v \<Rightarrow>
            (toUnsigned v = 0 \<or> toUnsigned v = 1)
            \<and> (\<exists>e'. Extend_resolve 0 ?e = Inr e'
                  \<and> ext_input e' = ext_input ?e
                  \<and> width (ext_output e') = width (ext_output ?e)
                  \<and> value (ext_output e')
                       = Some (if toUnsigned v = 0 then low (width (ext_output ?e))
                               else high (width (ext_output ?e))))"
    by blast+
  from c have "\<exists>e. Extend_new (newBus 1) (newBus 4) = Inr e"
    by (simp add: newBus_def)
  moreover from r have "\<exists>e'. Extend_resolve 0 ?e = Inr e'
         \<and> value (ext_output e') = Some [True, True, True, True]"
    unfolding v using u hi by auto
  ultimately show ?thesis by blast
qed

section \<open>The D latch on a rising clock\<close>

text \<open>
  C5, at the input of DLatch.test.ts. With \<open>d\<close> high, a resolve with the clock low and
  then a resolve with the clock high: the clock is high and \<open>d\<close> is 1, yet \<open>q\<close> holds
  \<open>not(d) = 0\<close>, and so does \<open>qInv\<close>.
\<close>

theorem DLatch_rise_drives_not_d:
  "value (dl_clock (clockHigh (DLatch_resolve 1 testLatch))) = Some [True]
   \<and> value (dl_d (clockHigh (DLatch_resolve 1 testLatch))) = Some [True]
   \<and> value (dl_q (DLatch_resolve 2 (clockHigh (DLatch_resolve 1 testLatch)))) = Some [False]
   \<and> value (dl_qInv (DLatch_resolve 2 (clockHigh (DLatch_resolve 1 testLatch)))) = Some [False]"
  by (simp add: DLatch_resolve_def DLatch_onClockRise_def clockHigh_def testLatch_def
      newBus_def setValue_def low_def high_def bs_not_def Let_def)

section \<open>Properties of the scheduler\<close>

lemma foldl_min_mem: "foldl min a xs \<in> insert (a::nat) (set xs)"
  by (induction xs arbitrary: a) (auto simp: min_def)

lemma pop_None: "pop q = None \<longleftrightarrow> q = []"
proof (cases "q = []")
  case True
  then show ?thesis by (simp add: pop_def)
next
  case False
  let ?t = "foldl min (fst (hd q)) (map fst (tl q))"
  have "?t \<in> insert (fst (hd q)) (set (map fst (tl q)))" by (rule foldl_min_mem)
  also have "insert (fst (hd q)) (set (map fst (tl q))) = fst ` set q"
    using False by (cases q) auto
  finally have "find (\<lambda>y. fst y = ?t) q \<noteq> None"
    by (auto simp: find_None_iff)
  then show ?thesis using False by (simp add: pop_def Let_def split: option.splits)
qed

lemma neverStable_step:
  assumes "neverStable elems buses q" and "pop q = Some p"
  shows "neverStable elems (fst (fire elems p buses)) (snd (fire elems p buses))"
  unfolding neverStable_def
proof
  fix n
  from assms(1) have "snd ((schedStep elems ^^ Suc n) (buses, q)) \<noteq> []"
    unfolding neverStable_def by blast
  moreover have "schedStep elems (buses, q) = fire elems p buses"
    using assms(2) by (simp add: schedStep_def)
  ultimately show "snd ((schedStep elems ^^ n) (fst (fire elems p buses), snd (fire elems p buses))) \<noteq> []"
    by (simp add: funpow_swap1)
qed

lemma resolveLoop_unstable:
  "neverStable elems buses q \<Longrightarrow> steps \<le> STEP_LIMIT \<Longrightarrow>
     resolveLoop elems buses q steps = Inl StepLimitExceeded"
proof (induction elems buses q steps rule: resolveLoop.induct)
  case (1 elems buses q steps)
  from "1.prems"(1) have "q \<noteq> []" unfolding neverStable_def
    by (metis funpow_0 snd_conv)
  then obtain p where p: "pop q = Some p" using pop_None by (cases "pop q") auto
  show ?case
  proof (cases "steps + 1 > STEP_LIMIT")
    case True
    then show ?thesis using p by (subst resolveLoop.simps) simp
  next
    case False
    have "resolveLoop elems (fst (fire elems p buses)) (snd (fire elems p buses)) (steps + 1)
            = Inl StepLimitExceeded"
      using "1.IH"[OF p False neverStable_step[OF "1.prems"(1) p]] False by simp
    then show ?thesis using p False by (subst resolveLoop.simps) simp
  qed
qed

lemma resolveLoop_steps:
  "resolveLoop elems buses q steps = Inr (b, n) \<Longrightarrow> steps \<le> STEP_LIMIT \<Longrightarrow> n \<le> STEP_LIMIT"
proof (induction elems buses q steps rule: resolveLoop.induct)
  case (1 elems buses q steps)
  show ?case
  proof (cases "pop q")
    case None
    with "1.prems" show ?thesis by (subst (asm) resolveLoop.simps) simp
  next
    case (Some p)
    show ?thesis
    proof (cases "steps + 1 > STEP_LIMIT")
      case True
      with Some "1.prems" show ?thesis by (subst (asm) resolveLoop.simps) simp
    next
      case False
      from "1.prems"(1) Some False
      have "resolveLoop elems (fst (fire elems p buses)) (snd (fire elems p buses)) (steps + 1)
              = Inr (b, n)"
        by (subst (asm) resolveLoop.simps) simp
      from "1.IH"[OF Some False this] False show ?thesis by simp
    qed
  qed
qed

lemma ring_step:
  "schedStep ringOscillator ([Some [b]], [(t, 0)]) = ([Some [\<not> b]], [(t + 1, 0)])"
  by (simp add: schedStep_def pop_def fire_def ringOscillator_def notGate_def busValue_def
      attachedTo_def bs_not_def Let_def)

lemma ring_iter:
  "\<exists>b' t'. (schedStep ringOscillator ^^ n) ([Some [b]], [(t, 0)]) = ([Some [b']], [(t', 0)])"
proof (induction n)
  case 0
  show ?case by simp
next
  case (Suc n)
  then obtain b' t'
    where "(schedStep ringOscillator ^^ n) ([Some [b]], [(t, 0)]) = ([Some [b']], [(t', 0)])"
    by blast
  then show ?case by (simp add: ring_step)
qed

lemma ring_neverStable: "neverStable ringOscillator [Some [True]] (initialQueue ringOscillator)"
  unfolding neverStable_def
proof
  fix n
  have q: "initialQueue ringOscillator = [(1, 0)]"
    by (simp add: initialQueue_def ringOscillator_def)
  from ring_iter[of n True 1]
  show "snd ((schedStep ringOscillator ^^ n) ([Some [True]], initialQueue ringOscillator)) \<noteq> []"
    unfolding q by auto
qed

text \<open>
  C6. The resolve loop is a total function: \<open>run\<close> always returns. When the propagation
  never stabilizes (the queue is non-empty after any number of scheduler steps), it
  returns the failure \<open>StepLimitExceeded\<close>; and a run that succeeds took at most
  1,000,000 steps.
\<close>

theorem run_step_limit:
  "(neverStable elems seeded (initialQueue elems) \<longrightarrow> run elems seeded = Inl StepLimitExceeded)
   \<and> (run elems seeded = Inr (b, n) \<longrightarrow> n \<le> 1000000)"
proof (intro conjI impI)
  assume "neverStable elems seeded (initialQueue elems)"
  then show "run elems seeded = Inl StepLimitExceeded"
    unfolding run_def by (rule resolveLoop_unstable) simp
next
  assume "run elems seeded = Inr (b, n)"
  then have "n \<le> STEP_LIMIT"
    unfolding run_def by (rule resolveLoop_steps) simp
  then show "n \<le> 1000000" by (simp add: STEP_LIMIT_def)
qed

theorem run_step_limit_witness:
  "run ringOscillator [Some [True]] = Inl StepLimitExceeded"
  using run_step_limit[of ringOscillator "[Some [True]]"] ring_neverStable
  by blast

end
